theory Spec2Isabelle
  imports Complex_Main
begin

section \<open>The unified visual manager of js/visual-manager.js\<close>

text \<open>
  The theory embeds the canvas layer of class \<open>UnifiedVisualManager\<close> (particle
  creation, resize, the per-frame particle update, the connection lines) and the
  mobile-menu toggle of its DOM layer.

  Number models. Two models of a JavaScript number are used.
  Exact: a number is a mathematical real and arithmetic is exact; an operation whose
  JavaScript result is no finite number for finite arguments (\<open>Math.sqrt\<close> of a
  negative number, a division by zero) returns \<open>None\<close>. \<open>createParticles\<close>,
  \<open>resizeCanvas\<close> and the update of a particle are embedded this way, for the
  statements on the particle count, the positions, the wrap, the frame and the update
  at distance 0.
  Double: every arithmetic operation is followed by \<open>fl\<close>, the rounding of IEEE-754
  binary64 (to nearest, ties to even; the exponent range is not bounded, so overflow
  and gradual underflow are outside the model). \<open>drawConnections\<close> and
  \<open>createParticles_double\<close>, the same code as \<open>createParticles\<close>, are embedded this
  way, for the statements that depend on rounding: the opacity of a connection and the
  ranges of the fields of a new particle.
  The width and the height of a canvas are natural numbers (the DOM attribute is an
  unsigned integer).

  Names. A record field is a global constant, so the fields \<open>x\<close>, \<open>y\<close> and \<open>size\<close> of
  a particle are called \<open>particle_x\<close>, \<open>particle_y\<close> and \<open>particle_size\<close>, and the
  fields \<open>x\<close> and \<open>y\<close> of the mouse \<open>mouse_x\<close> and \<open>mouse_y\<close>.
\<close>

subsection \<open>Data\<close>

record canvas =
  width :: nat
  height :: nat

record particle =
  particle_x :: real
  particle_y :: real
  particle_size :: real
  speedX :: real
  speedY :: real
  hue :: real
  originalX :: real
  originalY :: real

text \<open>\<open>this.mouse = { x: null, y: null, radius: 150 }\<close>: \<open>null\<close> is \<open>None\<close>.\<close>

record mouse =
  mouse_x :: "real option"
  mouse_y :: "real option"
  radius :: real

record manager =
  canvas :: canvas
  particles :: "particle list"
  mouse :: mouse

text \<open>The fields the constructor sets, with the canvas \<open>initCanvasLayer\<close> creates.\<close>

definition constructor :: "canvas \<Rightarrow> manager" where
  "constructor c =
     \<lparr>canvas = c, particles = [],
      mouse = \<lparr>mouse_x = None, mouse_y = None, radius = 150\<rparr>\<rparr>"

subsection \<open>Numbers\<close>

definition Math_sqrt :: "real \<Rightarrow> real option" where
  "Math_sqrt v = (if v < 0 then None else Some (sqrt v))"

definition js_div :: "real \<Rightarrow> real \<Rightarrow> real option" where
  "js_div a b = (if b = 0 then None else Some (a / b))"

text \<open>
  \<open>Math.atan2(y, x)\<close> on finite arguments, by the cases of the language definition;
  at \<open>y = 0\<close>, \<open>x = 0\<close> it is \<open>0\<close>.
\<close>

definition Math_atan2 :: "real \<Rightarrow> real \<Rightarrow> real" where
  "Math_atan2 y x =
     (if 0 < x then arctan (y / x)
      else if x < 0 then (if 0 \<le> y then arctan (y / x) + pi else arctan (y / x) - pi)
      else if 0 < y then pi / 2
      else if y < 0 then - pi / 2
      else 0)"

subsection \<open>Double arithmetic\<close>

text \<open>
  \<open>rne v\<close> is the integer nearest to \<open>v\<close>, the even one of the two when \<open>v\<close> is half
  way. \<open>binade v\<close> is the exponent \<open>k\<close> with \<open>2^k \<le> |v| < 2^(k+1)\<close>, and \<open>ulp v\<close> the
  distance \<open>2^(k-52)\<close> of the doubles there: a double has 53 significant bits.
  \<open>fl v\<close> is the double an operation with the exact result \<open>v\<close> returns, and
  \<open>double v\<close> says that \<open>v\<close> is one.
\<close>

definition rne :: "real \<Rightarrow> int" where
  "rne v =
     (let n = \<lfloor>v\<rfloor>; f = v - of_int n
      in if f < 1 / 2 then n
         else if 1 / 2 < f then n + 1
         else if even n then n else n + 1)"

definition binade :: "real \<Rightarrow> int" where
  "binade v = \<lfloor>log 2 \<bar>v\<bar>\<rfloor>"

definition ulp :: "real \<Rightarrow> real" where
  "ulp v = 2 powr of_int (binade v - 52)"

definition fl :: "real \<Rightarrow> real" where
  "fl v =
     (if v = 0 then 0
      else if 0 < v then of_int (rne (v / ulp v)) * ulp v
      else - (of_int (rne (- v / ulp v)) * ulp v))"

definition double :: "real \<Rightarrow> bool" where
  "double v = (fl v = v)"

text \<open>\<open>Math.sqrt\<close> returns the double nearest to the square root.\<close>

definition Math_sqrt_double :: "real \<Rightarrow> real option" where
  "Math_sqrt_double v = (if v < 0 then None else Some (fl (sqrt v)))"

text \<open>
  \<open>Math.random()\<close>: the generator is the sequence of the samples it will return;
  a call returns the first one and leaves the rest.
\<close>

type_synonym generator = "nat \<Rightarrow> real"

definition Math_random :: "generator \<Rightarrow> real \<times> generator" where
  "Math_random g = (g 0, \<lambda>n. g (Suc n))"

definition uniform :: "generator \<Rightarrow> bool" where
  "uniform g = (\<forall>n. 0 \<le> g n \<and> g n < 1)"

text \<open>A generator for the concrete runs below: every sample is \<open>1 / 2\<close>.\<close>

definition midpoints :: generator where
  "midpoints n = 1 / 2"

subsection \<open>createParticles and resizeCanvas\<close>

definition numberOfParticles :: "canvas \<Rightarrow> nat" where
  "numberOfParticles c = nat \<lfloor>(real (width c) * real (height c)) / 15000\<rfloor>"

text \<open>One pass of the loop body: six samples in the order of the source, one push.\<close>

definition newParticle :: "canvas \<Rightarrow> generator \<Rightarrow> particle \<times> generator" where
  "newParticle c g0 =
     (let (r1, g1) = Math_random g0; size = r1 * 3 + 1;
          (r2, g2) = Math_random g1; x = r2 * real (width c);
          (r3, g3) = Math_random g2; y = r3 * real (height c);
          (r4, g4) = Math_random g3; sx = (r4 - 0.5) * 0.5;
          (r5, g5) = Math_random g4; sy = (r5 - 0.5) * 0.5;
          (r6, g6) = Math_random g5; h = r6 * 60 + 200
      in (\<lparr>particle_x = x, particle_y = y, particle_size = size, speedX = sx,
           speedY = sy, hue = h, originalX = x, originalY = y\<rparr>, g6))"

text \<open>\<open>for (let i = 0; i < numberOfParticles; i++)\<close>\<close>

function createLoop ::
  "nat \<Rightarrow> nat \<Rightarrow> canvas \<Rightarrow> generator \<Rightarrow> particle list \<Rightarrow> particle list" where
  "createLoop i n c g ps =
     (if i < n
      then (let (p, g') = newParticle c g in createLoop (i + 1) n c g' (ps @ [p]))
      else ps)"
  by pat_completeness auto
termination
  by (relation "measure (\<lambda>(i, n, c, g, ps). n - i)") auto

definition createParticles :: "generator \<Rightarrow> manager \<Rightarrow> manager" where
  "createParticles g s =
     s\<lparr>particles := createLoop 0 (numberOfParticles (canvas s)) (canvas s) g []\<rparr>"

text \<open>
  \<open>resizeCanvas\<close>: \<open>innerWidth\<close> and \<open>innerHeight\<close> are the window's new dimensions.
\<close>

definition resizeCanvas :: "nat \<Rightarrow> nat \<Rightarrow> generator \<Rightarrow> manager \<Rightarrow> manager" where
  "resizeCanvas innerWidth innerHeight g s =
     (let s1 = s\<lparr>canvas := \<lparr>width = innerWidth, height = innerHeight\<rparr>\<rparr>
      in if length (particles s1) > 0 then createParticles g s1 else s1)"

subsection \<open>createParticles in double arithmetic\<close>

text \<open>The samples of \<open>Math.random()\<close> are doubles in \<open>[0, 1)\<close>.\<close>

definition uniform_double :: "generator \<Rightarrow> bool" where
  "uniform_double g = (\<forall>n. 0 \<le> g n \<and> g n < 1 \<and> double (g n))"

text \<open>A generator whose every sample is the largest double below 1.\<close>

definition top_samples :: generator where
  "top_samples n = 1 - 1 / 2 ^ 53"

text \<open>The loop body of \<open>createParticles\<close>, each operation rounded.\<close>

definition newParticle_double :: "canvas \<Rightarrow> generator \<Rightarrow> particle \<times> generator" where
  "newParticle_double c g0 =
     (let (r1, g1) = Math_random g0; size = fl (fl (r1 * 3) + 1);
          (r2, g2) = Math_random g1; x = fl (r2 * real (width c));
          (r3, g3) = Math_random g2; y = fl (r3 * real (height c));
          (r4, g4) = Math_random g3; sx = fl (fl (r4 - 0.5) * 0.5);
          (r5, g5) = Math_random g4; sy = fl (fl (r5 - 0.5) * 0.5);
          (r6, g6) = Math_random g5; h = fl (fl (r6 * 60) + 200)
      in (\<lparr>particle_x = x, particle_y = y, particle_size = size, speedX = sx,
           speedY = sy, hue = h, originalX = x, originalY = y\<rparr>, g6))"

function createLoop_double ::
  "nat \<Rightarrow> nat \<Rightarrow> canvas \<Rightarrow> generator \<Rightarrow> particle list \<Rightarrow> particle list" where
  "createLoop_double i n c g ps =
     (if i < n
      then (let (p, g') = newParticle_double c g in createLoop_double (i + 1) n c g' (ps @ [p]))
      else ps)"
  by pat_completeness auto
termination
  by (relation "measure (\<lambda>(i, n, c, g, ps). n - i)") auto

definition createParticles_double :: "generator \<Rightarrow> manager \<Rightarrow> manager" where
  "createParticles_double g s =
     s\<lparr>particles := createLoop_double 0 (numberOfParticles (canvas s)) (canvas s) g []\<rparr>"

subsection \<open>Mouse events\<close>

definition handleMouseMove :: "real \<Rightarrow> real \<Rightarrow> manager \<Rightarrow> manager" where
  "handleMouseMove clientX clientY s =
     s\<lparr>mouse := (mouse s)\<lparr>mouse_x := Some clientX, mouse_y := Some clientY\<rparr>\<rparr>"

definition handleMouseOut :: "manager \<Rightarrow> manager" where
  "handleMouseOut s = s\<lparr>mouse := (mouse s)\<lparr>mouse_x := None, mouse_y := None\<rparr>\<rparr>"

subsection \<open>drawParticles\<close>

text \<open>
  What a frame paints: \<open>Arc x y size hue\<close> is the filled circle of a particle,
  \<open>Stroke opacity x1 y1 x2 y2\<close> a connection line.
\<close>

datatype drawing = Arc real real real real | Stroke real real real real real

text \<open>
  The block under \<open>// Mouse interaction\<close>. A comparison with a \<open>distance\<close> that is no
  number is false, so the block is skipped then; a \<open>force\<close> that is no finite number
  would leave the model (\<open>None\<close>).
\<close>

definition mouseInteraction :: "mouse \<Rightarrow> particle \<Rightarrow> particle option" where
  "mouseInteraction m p =
     (case (mouse_x m, mouse_y m) of
        (Some mx, Some my) \<Rightarrow>
          (let dx = mx - particle_x p; dy = my - particle_y p
           in case Math_sqrt (dx * dx + dy * dy) of
                None \<Rightarrow> Some p
              | Some distance \<Rightarrow>
                  if distance < radius m
                  then (case js_div (radius m - distance) (radius m) of
                          None \<Rightarrow> None
                        | Some force \<Rightarrow>
                            (let angle = Math_atan2 dy dx
                             in Some (p\<lparr>particle_x := particle_x p - cos angle * force * 3,
                                        particle_y := particle_y p - sin angle * force * 3\<rparr>)))
                  else Some p)
      | _ \<Rightarrow> Some p)"

text \<open>\<open>// Return to original position slowly\<close>\<close>

definition returnToOriginal :: "particle \<Rightarrow> particle" where
  "returnToOriginal p =
     (let p1 = p\<lparr>particle_x := particle_x p + (originalX p - particle_x p) * 0.02\<rparr>
      in p1\<lparr>particle_y := particle_y p1 + (originalY p1 - particle_y p1) * 0.02\<rparr>)"

text \<open>\<open>// Move particle\<close>\<close>

definition moveParticle :: "particle \<Rightarrow> particle" where
  "moveParticle p =
     (let p1 = p\<lparr>particle_x := particle_x p + speedX p\<rparr>
      in p1\<lparr>particle_y := particle_y p1 + speedY p1\<rparr>)"

text \<open>\<open>// Wrap around edges\<close>: four statements, one after the other.\<close>

definition wrapAroundEdges :: "canvas \<Rightarrow> particle \<Rightarrow> particle" where
  "wrapAroundEdges c p =
     (let p1 = (if particle_x p > real (width c) then p\<lparr>particle_x := 0\<rparr> else p);
          p2 = (if particle_x p1 < 0 then p1\<lparr>particle_x := real (width c)\<rparr> else p1);
          p3 = (if particle_y p2 > real (height c) then p2\<lparr>particle_y := 0\<rparr> else p2)
      in if particle_y p3 < 0 then p3\<lparr>particle_y := real (height c)\<rparr> else p3)"

text \<open>The particle before the wrap: after the mouse, the return and the move.\<close>

definition beforeWrap :: "mouse \<Rightarrow> particle \<Rightarrow> particle option" where
  "beforeWrap m p =
     (case mouseInteraction m p of
        None \<Rightarrow> None
      | Some p1 \<Rightarrow> Some (moveParticle (returnToOriginal p1)))"

text \<open>The update of one particle in the callback of \<open>forEach\<close>.\<close>

definition updateParticle :: "mouse \<Rightarrow> canvas \<Rightarrow> particle \<Rightarrow> particle option" where
  "updateParticle m c p =
     (case beforeWrap m p of
        None \<Rightarrow> None
      | Some q \<Rightarrow> Some (wrapAroundEdges c q))"

text \<open>\<open>this.particles.forEach\<close>: each particle is updated in place, then painted.\<close>

fun forEach :: "mouse \<Rightarrow> canvas \<Rightarrow> particle list \<Rightarrow> (particle list \<times> drawing list) option" where
  "forEach m c [] = Some ([], [])"
| "forEach m c (p # ps) =
     (case updateParticle m c p of
        None \<Rightarrow> None
      | Some p' \<Rightarrow>
          (case forEach m c ps of
             None \<Rightarrow> None
           | Some (ps', ds) \<Rightarrow>
               Some (p' # ps',
                     Arc (particle_x p') (particle_y p') (particle_size p') (hue p') # ds)))"

definition drawParticles :: "manager \<Rightarrow> (manager \<times> drawing list) option" where
  "drawParticles s =
     (case forEach (mouse s) (canvas s) (particles s) of
        None \<Rightarrow> None
      | Some (ps, ds) \<Rightarrow> Some (s\<lparr>particles := ps\<rparr>, ds))"

subsection \<open>drawConnections\<close>

definition maxDistance :: real where
  "maxDistance = 120"

text \<open>
  \<open>const opacity = (1 - distance / maxDistance) * 0.3\<close>, in double arithmetic; the
  literal \<open>0.3\<close> is the double nearest to it.
\<close>

definition opacity :: "real \<Rightarrow> real" where
  "opacity distance = fl (fl (1 - fl (distance / maxDistance)) * fl 0.3)"

text \<open>
  The body of the inner loop, for the particles at \<open>i\<close> and \<open>j\<close>, in double
  arithmetic.
\<close>

definition connect :: "particle \<Rightarrow> particle \<Rightarrow> drawing list" where
  "connect a b =
     (let dx = fl (particle_x a - particle_x b); dy = fl (particle_y a - particle_y b)
      in case Math_sqrt_double (fl (fl (dx * dx) + fl (dy * dy))) of
           None \<Rightarrow> []
         | Some distance \<Rightarrow>
             if distance < maxDistance
             then [Stroke (opacity distance) (particle_x a) (particle_y a)
                     (particle_x b) (particle_y b)]
             else [])"

text \<open>\<open>for (let j = i + 1; j < this.particles.length; j++)\<close>\<close>

function innerLoop :: "particle list \<Rightarrow> nat \<Rightarrow> nat \<Rightarrow> drawing list" where
  "innerLoop ps i j =
     (if j < length ps then connect (ps ! i) (ps ! j) @ innerLoop ps i (j + 1) else [])"
  by pat_completeness auto
termination
  by (relation "measure (\<lambda>(ps, i, j). length ps - j)") auto

text \<open>\<open>for (let i = 0; i < this.particles.length; i++)\<close>\<close>

function outerLoop :: "particle list \<Rightarrow> nat \<Rightarrow> drawing list" where
  "outerLoop ps i =
     (if i < length ps then innerLoop ps i (i + 1) @ outerLoop ps (i + 1) else [])"
  by pat_completeness auto
termination
  by (relation "measure (\<lambda>(ps, i). length ps - i)") auto


subsection \<open>The mobile menu\<close>

text \<open>
  The part of the document \<open>toggleMobileMenu\<close> touches: the class list of
  \<open>this.navMenu\<close> and the styles of the \<open>span\<close> elements under \<open>this.hamburger\<close>
  (\<open>None\<close> where \<open>getElementById\<close> found no element). Reading a property of \<open>null\<close>
  or of a missing span throws a \<open>TypeError\<close>; what was written before stays.
\<close>

datatype js_error = TypeError

record span =
  style_transform :: string
  style_opacity :: string

record dom =
  navMenu :: "string list option"
  hamburger :: "span list option"

definition classList_toggle :: "string \<Rightarrow> string list \<Rightarrow> string list" where
  "classList_toggle t cl = (if t \<in> set cl then removeAll t cl else cl @ [t])"

definition classList_contains :: "string \<Rightarrow> string list \<Rightarrow> bool" where
  "classList_contains t cl = (t \<in> set cl)"

definition set_style :: "nat \<Rightarrow> (span \<Rightarrow> span) \<Rightarrow> span list \<Rightarrow> js_error + span list" where
  "set_style i f spans =
     (if i < length spans then Inr (spans[i := f (spans ! i)]) else Inl TypeError)"

definition toggleMobileMenu :: "dom \<Rightarrow> dom \<times> js_error option" where
  "toggleMobileMenu d =
     (case navMenu d of
        None \<Rightarrow> (d, Some TypeError)
      | Some cl \<Rightarrow>
          (let cl' = classList_toggle ''active'' cl;
               d1 = d\<lparr>navMenu := Some cl'\<rparr>
           in case hamburger d1 of
                None \<Rightarrow> (d1, Some TypeError)
              | Some spans \<Rightarrow>
                  (let (t0, o1, t2) =
                         (if classList_contains ''active'' cl'
                          then (''rotate(45deg) translate(5px, 5px)'', ''0'',
                                ''rotate(-45deg) translate(7px, -6px)'')
                          else (''none'', ''1'', ''none''))
                   in case set_style 0 (\<lambda>e. e\<lparr>style_transform := t0\<rparr>) spans of
                        Inl e \<Rightarrow> (d1, Some e)
                      | Inr s1 \<Rightarrow>
                          (case set_style 1 (\<lambda>e. e\<lparr>style_opacity := o1\<rparr>) s1 of
                             Inl e \<Rightarrow> (d1\<lparr>hamburger := Some s1\<rparr>, Some e)
                           | Inr s2 \<Rightarrow>
                               (case set_style 2 (\<lambda>e. e\<lparr>style_transform := t2\<rparr>) s2 of
                                  Inl e \<Rightarrow> (d1\<lparr>hamburger := Some s2\<rparr>, Some e)
                                | Inr s3 \<Rightarrow> (d1\<lparr>hamburger := Some s3\<rparr>, None))))))"

text \<open>Whether the menu carries the class \<open>active\<close>.\<close>

definition menu_active :: "dom \<Rightarrow> bool" where
  "menu_active d = (case navMenu d of None \<Rightarrow> False | Some cl \<Rightarrow> classList_contains ''active'' cl)"

section \<open>Proofs\<close>

subsection \<open>Rounding to a double\<close>

text \<open>
  \<open>fl\<close> is monotone, odd and idempotent. At a concrete number it is evaluated with
  \<open>fl_exact\<close> (the number is a double) or \<open>fl_round\<close> (the nearest multiple of the
  ulp), which take the binade of the number as an argument.
\<close>

lemma rne_of_int [simp]: "rne (of_int n) = n"
  by (simp add: rne_def)

lemma rne_floor_le: "\<lfloor>v\<rfloor> \<le> rne v"
  by (simp add: rne_def Let_def)

lemma rne_le_floor_Suc: "rne v \<le> \<lfloor>v\<rfloor> + 1"
  by (simp add: rne_def Let_def)

lemma rne_mono: "v \<le> w \<Longrightarrow> rne v \<le> rne w"
proof -
  assume vw: "v \<le> w"
  then have fl: "\<lfloor>v\<rfloor> \<le> \<lfloor>w\<rfloor>" by (rule floor_mono)
  show ?thesis
  proof (cases "\<lfloor>v\<rfloor> = \<lfloor>w\<rfloor>")
    case True
    with vw show ?thesis by (auto simp: rne_def Let_def)
  next
    case False
    with fl have "\<lfloor>v\<rfloor> + 1 \<le> \<lfloor>w\<rfloor>" by simp
    with rne_le_floor_Suc [of v] rne_floor_le [of w] show ?thesis by linarith
  qed
qed

lemma rne_ge: "of_int a \<le> v \<Longrightarrow> a \<le> rne v"
  using rne_mono [of "of_int a" v] by simp

lemma rne_le: "v \<le> of_int b \<Longrightarrow> rne v \<le> b"
  using rne_mono [of v "of_int b"] by simp

lemma binade_eq:
  assumes "2 powr of_int k \<le> \<bar>v\<bar>" "\<bar>v\<bar> < 2 powr (of_int k + 1)"
  shows "binade v = k"
proof -
  have "(0::real) < 2 powr of_int k" by simp
  with assms(1) have "0 < \<bar>v\<bar>" by linarith
  then show ?thesis
    unfolding binade_def using assms by (simp add: floor_log_eq_powr_iff)
qed

lemma binade_bounds:
  assumes "v \<noteq> 0"
  shows "2 powr of_int (binade v) \<le> \<bar>v\<bar> \<and> \<bar>v\<bar> < 2 powr (of_int (binade v) + 1)"
proof -
  have "0 < \<bar>v\<bar>" using assms by simp
  then show ?thesis
    using floor_log_eq_powr_iff [of "\<bar>v\<bar>" 2 "binade v"] by (simp add: binade_def)
qed

lemma binade_minus [simp]: "binade (- v) = binade v"
  by (simp add: binade_def)

lemma ulp_minus [simp]: "ulp (- v) = ulp v"
  by (simp add: ulp_def)

lemma ulp_pos [simp]: "0 < ulp v"
  by (simp add: ulp_def)

lemma fl_zero [simp]: "fl 0 = 0"
  by (simp add: fl_def)

lemma fl_minus: "fl (- v) = - fl v"
  by (simp add: fl_def)

lemma fl_pos_eval:
  assumes "2 powr of_int k \<le> v" "v < 2 powr (of_int k + 1)"
  shows "fl v = of_int (rne (v / 2 powr of_int (k - 52))) * 2 powr of_int (k - 52)"
proof -
  have "(0::real) < 2 powr of_int k" by simp
  with assms(1) have pos: "0 < v" by linarith
  then have "binade v = k" using assms by (intro binade_eq) simp_all
  with pos show ?thesis by (simp add: fl_def ulp_def)
qed

lemma fl_pos_range:
  assumes "2 powr of_int k \<le> v" "v < 2 powr (of_int k + 1)"
  shows "2 powr of_int k \<le> fl v \<and> fl v \<le> 2 powr (of_int k + 1)"
proof -
  let ?u = "(2::real) powr of_int (k - 52)"
  have u: "0 < ?u" by simp
  have lo: "2 powr of_int k = of_int (2 ^ 52) * ?u"
    by (simp add: powr_diff)
  have hi: "2 powr (of_int k + 1) = of_int (2 ^ 53) * ?u"
    by (simp add: powr_diff powr_add)
  have "of_int (2 ^ 52) \<le> v / ?u" using assms(1) u unfolding lo by (simp add: pos_le_divide_eq)
  then have a: "2 ^ 52 \<le> rne (v / ?u)" by (rule rne_ge)
  have "v / ?u \<le> of_int (2 ^ 53)" using assms(2) u unfolding hi by (simp add: pos_divide_le_eq)
  then have b: "rne (v / ?u) \<le> 2 ^ 53" by (rule rne_le)
  have "of_int (2 ^ 52) * ?u \<le> of_int (rne (v / ?u)) * ?u"
    using a u by (intro mult_right_mono) (simp_all add: powr_neg_numeral)
  moreover have "of_int (rne (v / ?u)) * ?u \<le> of_int (2 ^ 53) * ?u"
    using b u by (intro mult_right_mono) (simp_all add: powr_neg_numeral)
  ultimately show ?thesis
    unfolding fl_pos_eval [OF assms] lo hi by simp
qed

lemma fl_pos: "0 < v \<Longrightarrow> 0 < fl v"
proof -
  assume pos: "0 < v"
  then have "2 powr of_int (binade v) \<le> v \<and> v < 2 powr (of_int (binade v) + 1)"
    using binade_bounds [of v] by simp
  then have "2 powr of_int (binade v) \<le> fl v" using fl_pos_range by blast
  moreover have "0 < (2::real) powr of_int (binade v)" by simp
  ultimately show ?thesis by linarith
qed

lemma fl_mono_pos:
  assumes "0 < v" "v \<le> w"
  shows "fl v \<le> fl w"
proof -
  let ?k = "binade v" and ?l = "binade w"
  have w: "0 < w" using assms by simp
  have bv: "2 powr of_int ?k \<le> v" "v < 2 powr (of_int ?k + 1)"
    using binade_bounds [of v] assms(1) by simp_all
  have bw: "2 powr of_int ?l \<le> w" "w < 2 powr (of_int ?l + 1)"
    using binade_bounds [of w] w by simp_all
  have kl: "?k \<le> ?l"
    unfolding binade_def using assms by (intro floor_mono) simp
  show ?thesis
  proof (cases "?k = ?l")
    case True
    let ?u = "(2::real) powr of_int (?k - 52)"
    have "v / ?u \<le> w / ?u" using assms(2) by (simp add: divide_right_mono)
    then have "rne (v / ?u) \<le> rne (w / ?u)" by (rule rne_mono)
    then have "of_int (rne (v / ?u)) * ?u \<le> of_int (rne (w / ?u)) * ?u"
      by (intro mult_right_mono) (simp_all add: powr_neg_numeral)
    then show ?thesis
      using fl_pos_eval [OF bv] fl_pos_eval [OF bw] True by simp
  next
    case False
    with kl have "?k + 1 \<le> ?l" by simp
    then have "real_of_int ?k + 1 \<le> real_of_int ?l" by linarith
    then have "(2::real) powr (of_int ?k + 1) \<le> 2 powr of_int ?l"
      by (rule powr_mono) simp
    with fl_pos_range [OF bv] fl_pos_range [OF bw] show ?thesis by linarith
  qed
qed

lemma fl_mono: "v \<le> w \<Longrightarrow> fl v \<le> fl w"
proof -
  assume vw: "v \<le> w"
  consider "0 < v" | "v = 0" "w = 0" | "v = 0" "0 < w" | "v < 0" "0 \<le> w" | "v < 0" "w < 0"
    using vw by linarith
  then show ?thesis
  proof cases
    case 1
    then show ?thesis using vw by (rule fl_mono_pos)
  next
    case 2
    then show ?thesis by simp
  next
    case 3
    then show ?thesis using fl_pos [of w] by simp
  next
    case 4
    have "fl v < 0" using fl_pos [of "- v"] 4(1) by (simp add: fl_minus)
    moreover have "0 \<le> fl w" using fl_pos [of w] 4(2) by (cases "w = 0") auto
    ultimately show ?thesis by simp
  next
    case 5
    have "fl (- w) \<le> fl (- v)" using 5 vw by (intro fl_mono_pos) (simp_all add: powr_neg_numeral)
    then show ?thesis by (simp add: fl_minus)
  qed
qed


lemma fl_exact:
  assumes "2 powr of_int k \<le> v" "v < 2 powr (of_int k + 1)"
    and "v / 2 powr of_int (k - 52) \<in> \<int>"
  shows "fl v = v"
proof -
  from assms(3) obtain n where n: "v / 2 powr of_int (k - 52) = of_int n"
    by (auto elim: Ints_cases)
  have "of_int (rne (v / 2 powr of_int (k - 52))) * 2 powr of_int (k - 52)
      = (v / 2 powr of_int (k - 52)) * 2 powr of_int (k - 52)"
    unfolding n by simp
  also have "\<dots> = v" by simp
  finally show ?thesis
    unfolding fl_pos_eval [OF assms(1,2)] .
qed

lemma fl_1: "fl 1 = 1"
  by (rule fl_exact [where k = 0]) (simp_all add: powr_neg_numeral)

lemma fl_200: "fl 200 = 200"
  by (rule fl_exact [where k = 7]) (simp_all add: powr_neg_numeral)

lemma fl_260: "fl 260 = 260"
  by (rule fl_exact [where k = 8]) (simp_all add: powr_neg_numeral)

lemma fl_60: "fl 60 = 60"
  by (rule fl_exact [where k = 5]) (simp_all add: powr_neg_numeral)

lemma fl_half: "fl (1 / 2) = 1 / 2"
  by (rule fl_exact [where k = "- 1"]) (simp_all add: powr_neg_numeral)

lemma rne_near:
  assumes "of_int n - 1 / 2 < v" "v < of_int n + 1 / 2"
  shows "rne v = n"
proof -
  have "\<lfloor>v\<rfloor> = n \<or> \<lfloor>v\<rfloor> = n - 1" using assms by linarith
  then show ?thesis
  proof
    assume "\<lfloor>v\<rfloor> = n"
    with assms show ?thesis by (simp add: rne_def Let_def)
  next
    assume f: "\<lfloor>v\<rfloor> = n - 1"
    then have "v < of_int n" by linarith
    with f assms show ?thesis by (simp add: rne_def Let_def)
  qed
qed

lemma fl_round:
  assumes "2 powr of_int k \<le> v" "v < 2 powr (of_int k + 1)"
    and "of_int n - 1 / 2 < v / 2 powr of_int (k - 52)"
    and "v / 2 powr of_int (k - 52) < of_int n + 1 / 2"
  shows "fl v = of_int n * 2 powr of_int (k - 52)"
  unfolding fl_pos_eval [OF assms(1,2)] rne_near [OF assms(3,4)] ..

lemma double_below_one:
  assumes "double r" "0 \<le> r" "r < 1"
  shows "r \<le> 1 - 1 / 2 ^ 53"
proof (cases "r = 0")
  case True
  then show ?thesis by simp
next
  case False
  with assms have pos: "0 < r" by simp
  let ?k = "binade r"
  have b: "2 powr of_int ?k \<le> r" "r < 2 powr (of_int ?k + 1)"
    using binade_bounds [of r] pos by simp_all
  have "(2::real) powr of_int ?k < 2 powr 0" using b(1) assms(3) by simp
  then have "real_of_int ?k < 0" by (simp only: powr_less_cancel_iff) 
  then have k: "?k \<le> - 1" by linarith
  show ?thesis
  proof (cases "?k = - 1")
    case True
    let ?n = "rne (r / 2 powr of_int (?k - 52))"
    have r: "r = of_int ?n * 2 powr of_int (?k - 52)"
      using fl_pos_eval [OF b] assms(1) by (simp add: double_def)
    have u: "(2::real) powr of_int (?k - 52) = 1 / 2 ^ 53"
      using True by (simp add: powr_neg_numeral)
    have "of_int ?n * (1 / 2 ^ 53) < (1::real)" using r assms(3) unfolding u by simp
    then have "real_of_int ?n < of_int (2 ^ 53)" by (simp add: field_simps)
    then have "?n < 2 ^ 53" by (simp only: of_int_less_iff)
    then have "?n \<le> 2 ^ 53 - 1" by simp
    then have "real_of_int ?n \<le> of_int (2 ^ 53 - 1)" by (simp only: of_int_le_iff)
    then have "real_of_int ?n \<le> 2 ^ 53 - 1" by simp
    then have "of_int ?n * (1 / 2 ^ 53) \<le> (2 ^ 53 - 1) * (1 / 2 ^ 53 :: real)"
      by (intro mult_right_mono) simp_all
    then show ?thesis using r unfolding u by (simp add: field_simps)
  next
    case False
    with k have "?k + 1 \<le> - 1" by simp
    then have "real_of_int ?k + 1 \<le> - 1" by linarith
    then have "(2::real) powr (of_int ?k + 1) \<le> 2 powr (- 1)" by (rule powr_mono) simp
    then have "r < 1 / 2" using b(2) by (simp add: powr_minus inverse_eq_divide)
    then show ?thesis by simp
  qed
qed

lemma fl_top_times_60: "fl ((1 - 1 / 2 ^ 53) * 60) = 60 - 1 / 2 ^ 47"
proof -
  have "fl ((1 - 1 / 2 ^ 53) * 60) = of_int (60 * 2 ^ 47 - 1) * 2 powr of_int (5 - 52)"
    by (rule fl_round) (simp_all add: powr_neg_numeral)
  then show ?thesis by (simp add: powr_neg_numeral)
qed

lemma fl_top_hue: "fl (60 - 1 / 2 ^ 47 + 200) = 260"
proof -
  have "fl (60 - 1 / 2 ^ 47 + 200) = of_int (260 * 2 ^ 44) * 2 powr of_int (8 - 52)"
    by (rule fl_round) (simp_all add: powr_neg_numeral)
  then show ?thesis by (simp add: powr_neg_numeral)
qed

lemma fl_top_times_3: "fl ((1 - 1 / 2 ^ 53) * 3) = 3 - 1 / 2 ^ 51"
proof -
  have "fl ((1 - 1 / 2 ^ 53) * 3) = of_int (3 * 2 ^ 51 - 1) * 2 powr of_int (1 - 52)"
    by (rule fl_round) (simp_all add: powr_neg_numeral)
  then show ?thesis by (simp add: powr_neg_numeral)
qed

lemma fl_top_size: "fl (3 - 1 / 2 ^ 51 + 1) = 4 - 1 / 2 ^ 51"
proof -
  have "fl (4 - 1 / 2 ^ 51) = 4 - 1 / 2 ^ 51"
    by (rule fl_exact [where k = 1]) (simp_all add: powr_neg_numeral)
  then show ?thesis by simp
qed

lemma fl_top_minus_half: "fl (1 - 1 / 2 ^ 53 - 1 / 2) = 1 / 2 - 1 / 2 ^ 53"
proof -
  have "fl (1 / 2 - 1 / 2 ^ 53) = 1 / 2 - 1 / 2 ^ 53"
    by (rule fl_exact [where k = "- 2"]) (simp_all add: powr_neg_numeral)
  then show ?thesis by simp
qed

lemma fl_top_speed: "fl ((1 / 2 - 1 / 2 ^ 53) * (1 / 2)) = 1 / 4 - 1 / 2 ^ 54"
proof -
  have "fl (1 / 4 - 1 / 2 ^ 54) = 1 / 4 - 1 / 2 ^ 54"
    by (rule fl_exact [where k = "- 3"]) (simp_all add: powr_neg_numeral)
  then show ?thesis by simp
qed

lemma fl_minus_half: "fl (- (1 / 2)) = - (1 / 2)"
  by (simp only: fl_minus fl_half)

lemma fl_quarter: "fl (1 / 4) = 1 / 4"
  by (rule fl_exact [where k = "- 2"]) (simp_all add: powr_neg_numeral)

lemma fl_idem_pos:
  assumes "0 < v"
  shows "fl (fl v) = fl v"
proof -
  let ?k = "binade v"
  let ?u = "(2::real) powr of_int (?k - 52)"
  let ?n = "rne (v / ?u)"
  have b: "2 powr of_int ?k \<le> v" "v < 2 powr (of_int ?k + 1)"
    using binade_bounds [of v] assms by simp_all
  have e: "fl v = of_int ?n * ?u" by (rule fl_pos_eval [OF b])
  have r: "2 powr of_int ?k \<le> fl v" "fl v \<le> 2 powr (of_int ?k + 1)"
    using fl_pos_range [OF b] by simp_all
  show ?thesis
  proof (cases "fl v < 2 powr (of_int ?k + 1)")
    case True
    have "fl v / ?u = of_int ?n" unfolding e by simp
    then have "fl v / ?u \<in> \<int>" by simp
    with r(1) True show ?thesis by (rule fl_exact)
  next
    case False
    with r(2) have top: "fl v = 2 powr of_int (?k + 1)" by simp
    have "(2::real) powr of_int (?k + 1) / 2 powr of_int (?k + 1 - 52) = of_int (2 ^ 52)"
      by (simp add: powr_diff powr_add)
    then have "(2::real) powr of_int (?k + 1) / 2 powr of_int (?k + 1 - 52) \<in> \<int>"
      by (simp only: Ints_of_int)
    then have "fl (2 powr of_int (?k + 1)) = 2 powr of_int (?k + 1)"
      by (intro fl_exact [where k = "?k + 1"]) (simp_all add: powr_add)
    then show ?thesis unfolding top .
  qed
qed

lemma fl_idem: "fl (fl v) = fl v"
proof -
  consider "0 < v" | "v = 0" | "v < 0" by linarith
  then show ?thesis
  proof cases
    case 1
    then show ?thesis by (rule fl_idem_pos)
  next
    case 2
    then show ?thesis by simp
  next
    case 3
    then have "fl (fl (- v)) = fl (- v)" by (intro fl_idem_pos) simp
    then show ?thesis by (simp add: fl_minus)
  qed
qed

lemma double_fl: "double (fl v)"
  by (simp add: double_def fl_idem)

subsection \<open>The creation loop\<close>

declare createLoop.simps [simp del] createLoop_double.simps [simp del]
  innerLoop.simps [simp del] outerLoop.simps [simp del]

lemma length_createLoop: "length (createLoop i n c g ps) = length ps + (n - i)"
proof (induction i n c g ps rule: createLoop.induct)
  case (1 i n c g ps)
  show ?case
  proof (cases "i < n")
    case True
    obtain p g' where pg: "newParticle c g = (p, g')" by (cases "newParticle c g")
    from 1 [OF True pg [symmetric] refl] True pg show ?thesis
      by (subst createLoop.simps) simp
  next
    case False
    then show ?thesis by (subst createLoop.simps) simp
  qed
qed

lemma uniform_newParticle: "uniform g \<Longrightarrow> uniform (snd (newParticle c g))"
  by (simp add: newParticle_def Math_random_def uniform_def split_def Let_def)

lemma createLoop_all:
  assumes step: "\<And>c g. uniform g \<Longrightarrow> Q c \<Longrightarrow> P c (fst (newParticle c g))"
  shows "uniform g \<Longrightarrow> Q c \<Longrightarrow> \<forall>p\<in>set ps. P c p
    \<Longrightarrow> \<forall>p\<in>set (createLoop i n c g ps). P c p"
proof (induction i n c g ps rule: createLoop.induct)
  case (1 i n c g ps)
  show ?case
  proof (cases "i < n")
    case True
    obtain p g' where pg: "newParticle c g = (p, g')" by (cases "newParticle c g")
    have u: "uniform g'" using uniform_newParticle [OF "1.prems"(1), of c] pg by simp
    have pp: "P c p" using step [OF "1.prems"(1) "1.prems"(2)] pg by simp
    have "\<forall>q\<in>set (createLoop (i + 1) n c g' (ps @ [p])). P c q"
      using "1.IH" [OF True pg [symmetric] refl u "1.prems"(2)] pp "1.prems"(3) by simp
    with True pg show ?thesis by (subst createLoop.simps) simp
  next
    case False
    with "1.prems" show ?thesis by (subst createLoop.simps) simp
  qed
qed

lemma numberOfParticles_div: "numberOfParticles c = (width c * height c) div 15000"
proof -
  have "(real (width c) * real (height c)) / 15000 = real (width c * height c) / real 15000"
    by simp
  then show ?thesis
    unfolding numberOfParticles_def by (simp only: floor_divide_of_nat_eq nat_int)
qed

lemma newParticle_position:
  assumes "uniform g" "0 < width c" "0 < height c"
  shows "0 \<le> particle_x (fst (newParticle c g)) \<and> particle_x (fst (newParticle c g)) < real (width c)
       \<and> 0 \<le> particle_y (fst (newParticle c g)) \<and> particle_y (fst (newParticle c g)) < real (height c)"
  using assms
  by (simp add: newParticle_def Math_random_def uniform_def split_def Let_def)

lemma createParticles_one:
  "particles (createParticles g (constructor \<lparr>width = 150, height = 100\<rparr>))
     = [fst (newParticle \<lparr>width = 150, height = 100\<rparr> g)]"
  by (simp add: createParticles_def constructor_def numberOfParticles_def createLoop.simps split_def)

subsection \<open>Claims on createParticles\<close>

text \<open>
  Claim C1. For every canvas of width \<open>W\<close> and height \<open>H\<close>, \<open>createParticles\<close> leaves
  exactly \<open>floor (W * H / 15000)\<close> particles, each at a position in
  \<open>[0, W) \<times> [0, H)\<close>, whatever samples in \<open>[0, 1)\<close> the generator returns; a canvas of
  1500 by 1000 gets exactly 100 particles.
\<close>

theorem createParticles_count_and_bounds:
  assumes "uniform g"
  shows "length (particles (createParticles g s)) = (width (canvas s) * height (canvas s)) div 15000
       \<and> (\<forall>p\<in>set (particles (createParticles g s)).
             0 \<le> particle_x p \<and> particle_x p < real (width (canvas s))
           \<and> 0 \<le> particle_y p \<and> particle_y p < real (height (canvas s)))
       \<and> (width (canvas s) = 1500 \<and> height (canvas s) = 1000
            \<longrightarrow> length (particles (createParticles g s)) = 100)"
proof -
  let ?c = "canvas s"
  have len: "length (particles (createParticles g s)) = (width ?c * height ?c) div 15000"
    by (simp add: createParticles_def length_createLoop numberOfParticles_div)
  have pos: "\<forall>p\<in>set (particles (createParticles g s)).
             0 \<le> particle_x p \<and> particle_x p < real (width ?c)
           \<and> 0 \<le> particle_y p \<and> particle_y p < real (height ?c)"
  proof (cases "0 < width ?c \<and> 0 < height ?c")
    case True
    have "\<forall>p\<in>set (createLoop 0 (numberOfParticles ?c) ?c g []).
             0 \<le> particle_x p \<and> particle_x p < real (width ?c)
           \<and> 0 \<le> particle_y p \<and> particle_y p < real (height ?c)"
      by (rule createLoop_all [where Q = "\<lambda>c. 0 < width c \<and> 0 < height c"])
         (use assms True in \<open>simp_all add: newParticle_position\<close>)
    then show ?thesis by (simp add: createParticles_def)
  next
    case False
    then have "width ?c * height ?c = 0" by auto
    then have "length (particles (createParticles g s)) = 0" using len by auto
    then show ?thesis by simp
  qed
  from len pos show ?thesis by simp
qed

theorem createParticles_count_and_bounds_witness:
  "uniform midpoints
   \<and> length (particles (createParticles midpoints
         (constructor \<lparr>width = 1500, height = 1000\<rparr>))) = 100
   \<and> particle_x (fst (newParticle \<lparr>width = 150, height = 100\<rparr> midpoints)) = 75
   \<and> particle_y (fst (newParticle \<lparr>width = 150, height = 100\<rparr> midpoints)) = 50
   \<and> particle_x (fst (newParticle \<lparr>width = 150, height = 100\<rparr> midpoints)) < 150
   \<and> particle_y (fst (newParticle \<lparr>width = 150, height = 100\<rparr> midpoints)) < 100"
proof -
  have u: "uniform midpoints" by (simp add: uniform_def midpoints_def)
  have n: "length (particles (createParticles midpoints
         (constructor \<lparr>width = 1500, height = 1000\<rparr>))) = 100"
    using createParticles_count_and_bounds [OF u, of "constructor \<lparr>width = 1500, height = 1000\<rparr>"]
    by (simp add: constructor_def)
  have "particle_x (fst (newParticle \<lparr>width = 150, height = 100\<rparr> midpoints)) < 150
      \<and> particle_y (fst (newParticle \<lparr>width = 150, height = 100\<rparr> midpoints)) < 100"
    using createParticles_count_and_bounds [OF u, of "constructor \<lparr>width = 150, height = 100\<rparr>"]
    by (simp add: createParticles_one) (simp add: constructor_def)
  moreover have "particle_x (fst (newParticle \<lparr>width = 150, height = 100\<rparr> midpoints)) = 75
      \<and> particle_y (fst (newParticle \<lparr>width = 150, height = 100\<rparr> midpoints)) = 50"
    by (simp add: newParticle_def Math_random_def midpoints_def)
  ultimately show ?thesis using u n by simp
qed

subsection \<open>Claim on the ranges of the fields\<close>

lemma size_double_range:
  assumes "double r" "0 \<le> r" "r < 1"
  shows "1 \<le> fl (fl (r * 3) + 1) \<and> fl (fl (r * 3) + 1) < 4"
proof -
  have "fl 0 \<le> fl (r * 3)" using assms(2) by (intro fl_mono) simp
  then have "fl 1 \<le> fl (fl (r * 3) + 1)" by (intro fl_mono) simp
  then have lo: "1 \<le> fl (fl (r * 3) + 1)" by (simp add: fl_1)
  have "r \<le> 1 - 1 / 2 ^ 53" using assms by (rule double_below_one)
  then have "fl (r * 3) \<le> fl ((1 - 1 / 2 ^ 53) * 3)" by (intro fl_mono) simp
  then have "fl (fl (r * 3) + 1) \<le> fl (3 - 1 / 2 ^ 51 + 1)"
    unfolding fl_top_times_3 by (intro fl_mono) simp
  then have "fl (fl (r * 3) + 1) < 4" unfolding fl_top_size by simp
  with lo show ?thesis by simp
qed

lemma speed_double_range:
  assumes "double r" "0 \<le> r" "r < 1"
  shows "- 0.25 \<le> fl (fl (r - 0.5) * 0.5) \<and> fl (fl (r - 0.5) * 0.5) < 0.25"
proof -
  have "fl (- (1 / 2)) \<le> fl (r - 0.5)" using assms(2) by (intro fl_mono) simp
  then have "- (1 / 2) \<le> fl (r - 0.5)" by (simp only: fl_minus_half)
  then have "fl (- (1 / 4)) \<le> fl (fl (r - 0.5) * 0.5)" by (intro fl_mono) simp
  then have lo: "- (1 / 4) \<le> fl (fl (r - 0.5) * 0.5)" by (simp only: fl_minus fl_quarter)
  have "r \<le> 1 - 1 / 2 ^ 53" using assms by (rule double_below_one)
  then have "fl (r - 0.5) \<le> fl (1 - 1 / 2 ^ 53 - 1 / 2)" by (intro fl_mono) simp
  then have "fl (r - 0.5) \<le> 1 / 2 - 1 / 2 ^ 53" by (simp only: fl_top_minus_half)
  then have "fl (fl (r - 0.5) * 0.5) \<le> fl ((1 / 2 - 1 / 2 ^ 53) * (1 / 2))"
    by (intro fl_mono) simp
  then have "fl (fl (r - 0.5) * 0.5) \<le> 1 / 4 - 1 / 2 ^ 54" by (simp only: fl_top_speed)
  then have "fl (fl (r - 0.5) * 0.5) < 1 / 4" by simp
  with lo show ?thesis by simp
qed

lemma hue_double_range:
  assumes "0 \<le> r" "r < 1"
  shows "200 \<le> fl (fl (r * 60) + 200) \<and> fl (fl (r * 60) + 200) \<le> 260"
proof -
  have "fl 0 \<le> fl (r * 60)" using assms(1) by (intro fl_mono) simp
  then have "fl 200 \<le> fl (fl (r * 60) + 200)" by (intro fl_mono) simp
  then have lo: "200 \<le> fl (fl (r * 60) + 200)" by (simp add: fl_200)
  have "fl (r * 60) \<le> fl 60" using assms(2) by (intro fl_mono) simp
  then have "fl (fl (r * 60) + 200) \<le> fl 260" unfolding fl_60 by (intro fl_mono) simp
  with lo show ?thesis by (simp add: fl_260)
qed

lemma uniform_double_newParticle:
  "uniform_double g \<Longrightarrow> uniform_double (snd (newParticle_double c g))"
  by (simp add: newParticle_double_def Math_random_def uniform_double_def split_def Let_def)

lemma newParticle_double_ranges:
  assumes "uniform_double g"
  shows "1 \<le> particle_size (fst (newParticle_double c g))
       \<and> particle_size (fst (newParticle_double c g)) < 4
       \<and> - 0.25 \<le> speedX (fst (newParticle_double c g))
       \<and> speedX (fst (newParticle_double c g)) < 0.25
       \<and> - 0.25 \<le> speedY (fst (newParticle_double c g))
       \<and> speedY (fst (newParticle_double c g)) < 0.25
       \<and> 200 \<le> hue (fst (newParticle_double c g))
       \<and> hue (fst (newParticle_double c g)) \<le> 260"
proof -
  have g: "double (g n) \<and> 0 \<le> g n \<and> g n < 1" for n
    using assms by (simp add: uniform_double_def)
  have f: "particle_size (fst (newParticle_double c g)) = fl (fl (g 0 * 3) + 1)"
    "speedX (fst (newParticle_double c g)) = fl (fl (g 3 - 0.5) * 0.5)"
    "speedY (fst (newParticle_double c g)) = fl (fl (g 4 - 0.5) * 0.5)"
    "hue (fst (newParticle_double c g)) = fl (fl (g 5 * 60) + 200)"
    by (simp_all add: newParticle_double_def Math_random_def split_def Let_def eval_nat_numeral)
  show ?thesis
    unfolding f
    using size_double_range [of "g 0"] speed_double_range [of "g 3"]
      speed_double_range [of "g 4"] hue_double_range [of "g 5"] g
    by blast
qed

lemma createLoop_double_all:
  assumes step: "\<And>c g. uniform_double g \<Longrightarrow> P (fst (newParticle_double c g))"
  shows "uniform_double g \<Longrightarrow> \<forall>p\<in>set ps. P p
    \<Longrightarrow> \<forall>p\<in>set (createLoop_double i n c g ps). P p"
proof (induction i n c g ps rule: createLoop_double.induct)
  case (1 i n c g ps)
  show ?case
  proof (cases "i < n")
    case True
    obtain p g' where pg: "newParticle_double c g = (p, g')" by (cases "newParticle_double c g")
    have u: "uniform_double g'" using uniform_double_newParticle [OF "1.prems"(1), of c] pg by simp
    have pp: "P p" using step [OF "1.prems"(1), of c] pg by simp
    have "\<forall>q\<in>set (createLoop_double (i + 1) n c g' (ps @ [p])). P q"
      using "1.IH" [OF True pg [symmetric] refl u] pp "1.prems"(2) by simp
    with True pg show ?thesis by (subst createLoop_double.simps) simp
  next
    case False
    with "1.prems" show ?thesis by (subst createLoop_double.simps) simp
  qed
qed

lemma createParticles_double_one:
  "particles (createParticles_double g (constructor \<lparr>width = 150, height = 100\<rparr>))
     = [fst (newParticle_double \<lparr>width = 150, height = 100\<rparr> g)]"
  by (simp add: createParticles_double_def constructor_def numberOfParticles_def
        createLoop_double.simps split_def)

lemma fl_30: "fl 30 = 30"
  by (rule fl_exact [where k = 4]) (simp_all add: powr_neg_numeral)

lemma fl_230: "fl 230 = 230"
  by (rule fl_exact [where k = 7]) (simp_all add: powr_neg_numeral)

lemma double_top: "double (1 - 1 / 2 ^ 53)"
  unfolding double_def
  by (rule fl_exact [where k = "- 1"]) (simp_all add: powr_neg_numeral)

lemma double_half: "double (1 / 2)"
  by (simp add: double_def fl_half)

text \<open>
  Claim C7 as stated (the hue is below 260 for every sample in \<open>[0, 1)\<close>) fails in the
  arithmetic of the code: for the largest double below 1 the product \<open>r * 60\<close> rounds
  to \<open>60 - 2^-47\<close> and the sum with 200 rounds to 260.
\<close>

theorem hue_reaches_260_counterexample:
  "uniform_double top_samples
   \<and> particles (createParticles_double top_samples (constructor \<lparr>width = 150, height = 100\<rparr>))
       = [fst (newParticle_double \<lparr>width = 150, height = 100\<rparr> top_samples)]
   \<and> hue (fst (newParticle_double \<lparr>width = 150, height = 100\<rparr> top_samples)) = 260
   \<and> \<not> hue (fst (newParticle_double \<lparr>width = 150, height = 100\<rparr> top_samples)) < 260"
proof -
  have u: "uniform_double top_samples"
    using double_top by (simp add: uniform_double_def top_samples_def)
  have "hue (fst (newParticle_double \<lparr>width = 150, height = 100\<rparr> top_samples))
      = fl (fl ((1 - 1 / 2 ^ 53) * 60) + 200)"
    by (simp add: newParticle_double_def Math_random_def split_def Let_def top_samples_def)
  also have "\<dots> = 260" by (simp only: fl_top_times_60 fl_top_hue)
  finally have h: "hue (fst (newParticle_double \<lparr>width = 150, height = 100\<rparr> top_samples)) = 260" .
  show ?thesis using u h by (simp add: createParticles_double_one)
qed

text \<open>
  Claim C7, as amended. Every particle \<open>createParticles\<close> creates has, in double
  arithmetic, its size in \<open>[1, 4)\<close>, both speed components in \<open>[-0.25, 0.25)\<close> and its
  hue in \<open>[200, 260]\<close>, for all samples that are doubles in \<open>[0, 1)\<close>.
\<close>

theorem createParticles_double_field_ranges:
  assumes "uniform_double g"
  shows "\<forall>p\<in>set (particles (createParticles_double g s)).
           1 \<le> particle_size p \<and> particle_size p < 4
         \<and> - 0.25 \<le> speedX p \<and> speedX p < 0.25
         \<and> - 0.25 \<le> speedY p \<and> speedY p < 0.25
         \<and> 200 \<le> hue p \<and> hue p \<le> 260"
proof -
  let ?P = "\<lambda>p. 1 \<le> particle_size p \<and> particle_size p < 4
         \<and> - 0.25 \<le> speedX p \<and> speedX p < 0.25
         \<and> - 0.25 \<le> speedY p \<and> speedY p < 0.25
         \<and> 200 \<le> hue p \<and> hue p \<le> 260"
  have step: "\<And>c g. uniform_double g \<Longrightarrow> ?P (fst (newParticle_double c g))"
    by (rule newParticle_double_ranges)
  have "\<forall>p\<in>set (createLoop_double 0 (numberOfParticles (canvas s)) (canvas s) g []). ?P p"
    by (rule createLoop_double_all [where P = ?P, OF step assms]) simp_all
  moreover have "particles (createParticles_double g s)
      = createLoop_double 0 (numberOfParticles (canvas s)) (canvas s) g []"
    by (simp add: createParticles_double_def)
  ultimately show ?thesis by (simp only:)
qed

theorem createParticles_double_field_ranges_witness:
  "uniform_double midpoints
   \<and> particles (createParticles_double midpoints (constructor \<lparr>width = 150, height = 100\<rparr>))
       = [fst (newParticle_double \<lparr>width = 150, height = 100\<rparr> midpoints)]
   \<and> hue (fst (newParticle_double \<lparr>width = 150, height = 100\<rparr> midpoints)) = 230
   \<and> particle_size (fst (newParticle_double \<lparr>width = 150, height = 100\<rparr> midpoints)) < 4"
proof -
  have u: "uniform_double midpoints"
    using double_half by (simp add: uniform_double_def midpoints_def)
  have h: "hue (fst (newParticle_double \<lparr>width = 150, height = 100\<rparr> midpoints)) = 230"
    by (simp add: newParticle_double_def Math_random_def split_def Let_def midpoints_def
          fl_30 fl_230)
  from createParticles_double_field_ranges [OF u, of "constructor \<lparr>width = 150, height = 100\<rparr>"]
  show ?thesis using u h by (simp add: createParticles_double_one)
qed

subsection \<open>The update of a particle\<close>

lemma Math_sqrt_sum_squares: "Math_sqrt (a * a + b * b) = Some (sqrt (a * a + b * b))"
  by (simp add: Math_sqrt_def not_less)

lemma mouseInteraction_total: "\<exists>p'. mouseInteraction m p = Some p'"
proof (cases "mouse_x m")
  case None
  then show ?thesis by (simp add: mouseInteraction_def)
next
  case (Some mx)
  show ?thesis
  proof (cases "mouse_y m")
    case None
    with Some show ?thesis by (simp add: mouseInteraction_def)
  next
    case (Some my)
    let ?d = "sqrt ((mx - particle_x p) * (mx - particle_x p) + (my - particle_y p) * (my - particle_y p))"
    have d0: "0 \<le> ?d" by simp
    show ?thesis
    proof (cases "?d < radius m")
      case True
      with d0 have "radius m \<noteq> 0" by linarith
      with True Some \<open>mouse_x m = Some mx\<close> show ?thesis
        by (simp add: mouseInteraction_def Math_sqrt_sum_squares js_div_def Let_def)
    next
      case False
      with Some \<open>mouse_x m = Some mx\<close> show ?thesis
        by (simp add: mouseInteraction_def Math_sqrt_sum_squares Let_def)
    qed
  qed
qed

lemma mouseInteraction_fields:
  assumes "mouseInteraction m p = Some p'"
  shows "particle_size p' = particle_size p \<and> speedX p' = speedX p \<and> speedY p' = speedY p
       \<and> hue p' = hue p \<and> originalX p' = originalX p \<and> originalY p' = originalY p"
  using assms
  by (auto simp: mouseInteraction_def Let_def Math_sqrt_sum_squares js_div_def
           split: option.splits if_splits)

lemma returnToOriginal_fields:
  "particle_size (returnToOriginal p) = particle_size p \<and> speedX (returnToOriginal p) = speedX p
   \<and> speedY (returnToOriginal p) = speedY p \<and> hue (returnToOriginal p) = hue p
   \<and> originalX (returnToOriginal p) = originalX p \<and> originalY (returnToOriginal p) = originalY p"
  by (simp add: returnToOriginal_def Let_def)

lemma moveParticle_fields:
  "particle_size (moveParticle p) = particle_size p \<and> speedX (moveParticle p) = speedX p
   \<and> speedY (moveParticle p) = speedY p \<and> hue (moveParticle p) = hue p
   \<and> originalX (moveParticle p) = originalX p \<and> originalY (moveParticle p) = originalY p"
  by (simp add: moveParticle_def Let_def)

lemma wrapAroundEdges_fields:
  "particle_size (wrapAroundEdges c p) = particle_size p \<and> speedX (wrapAroundEdges c p) = speedX p
   \<and> speedY (wrapAroundEdges c p) = speedY p \<and> hue (wrapAroundEdges c p) = hue p
   \<and> originalX (wrapAroundEdges c p) = originalX p \<and> originalY (wrapAroundEdges c p) = originalY p"
  by (simp add: wrapAroundEdges_def Let_def)

lemma beforeWrap_total: "\<exists>q. beforeWrap m p = Some q"
  using mouseInteraction_total [of m p] by (auto simp: beforeWrap_def)

lemma updateParticle_total: "\<exists>p'. updateParticle m c p = Some p'"
  using beforeWrap_total [of m p] by (auto simp: updateParticle_def)

lemma updateParticle_fields:
  assumes "updateParticle m c p = Some p'"
  shows "particle_size p' = particle_size p \<and> speedX p' = speedX p \<and> speedY p' = speedY p
       \<and> hue p' = hue p \<and> originalX p' = originalX p \<and> originalY p' = originalY p"
proof -
  from assms obtain p1 where 1: "mouseInteraction m p = Some p1"
    and 2: "p' = wrapAroundEdges c (moveParticle (returnToOriginal p1))"
    by (auto simp: updateParticle_def beforeWrap_def split: option.splits)
  show ?thesis
    unfolding 2
    using mouseInteraction_fields [OF 1]
    by (simp add: wrapAroundEdges_fields moveParticle_fields returnToOriginal_fields)
qed

lemma wrapAroundEdges_x:
  "particle_x (wrapAroundEdges c q) =
     (if particle_x q > real (width c) then 0
      else if particle_x q < 0 then real (width c) else particle_x q)"
  by (simp add: wrapAroundEdges_def Let_def)

lemma wrapAroundEdges_y:
  "particle_y (wrapAroundEdges c q) =
     (if particle_y q > real (height c) then 0
      else if particle_y q < 0 then real (height c) else particle_y q)"
  by (simp add: wrapAroundEdges_def Let_def)

lemma forEach_total: "\<exists>ps' ds. forEach m c ps = Some (ps', ds)"
proof (induction ps)
  case Nil
  show ?case by simp
next
  case (Cons p ps)
  obtain p' where "updateParticle m c p = Some p'" using updateParticle_total by blast
  moreover obtain ps' ds where "forEach m c ps = Some (ps', ds)" using Cons by blast
  ultimately show ?case by simp
qed

lemma forEach_fields:
  "forEach m c ps = Some (ps', ds) \<Longrightarrow>
     map particle_size ps' = map particle_size ps \<and> map speedX ps' = map speedX ps
   \<and> map speedY ps' = map speedY ps \<and> map hue ps' = map hue ps
   \<and> map originalX ps' = map originalX ps \<and> map originalY ps' = map originalY ps"
proof (induction ps arbitrary: ps' ds)
  case Nil
  then show ?case by simp
next
  case (Cons p ps)
  from Cons.prems obtain p1 ps1 ds1 where u: "updateParticle m c p = Some p1"
    and f: "forEach m c ps = Some (ps1, ds1)" and e: "ps' = p1 # ps1"
    by (auto split: option.splits)
  show ?case
    unfolding e using updateParticle_fields [OF u] Cons.IH [OF f] by simp
qed

subsection \<open>The direction of the repulsion\<close>

lemma sqrt_one_plus_ratio:
  assumes "x \<noteq> 0"
  shows "sqrt (1 + (y / x)\<^sup>2) = sqrt (x * x + y * y) / \<bar>x\<bar>"
proof -
  have "1 + (y / x)\<^sup>2 = (x * x + y * y) / (x * x)"
    using assms by (simp add: power2_eq_square field_simps)
  then show ?thesis
    by (simp add: real_sqrt_divide)
qed

lemma cos_arctan_ratio:
  assumes "x \<noteq> 0"
  shows "cos (arctan (y / x)) = \<bar>x\<bar> / sqrt (x * x + y * y)"
  using assms by (simp add: cos_arctan sqrt_one_plus_ratio)

lemma sin_arctan_ratio:
  assumes "x \<noteq> 0"
  shows "sin (arctan (y / x)) = (y / x) * \<bar>x\<bar> / sqrt (x * x + y * y)"
  using assms by (simp add: sin_arctan sqrt_one_plus_ratio)

lemma cos_Math_atan2:
  assumes "x \<noteq> 0 \<or> y \<noteq> 0"
  shows "cos (Math_atan2 y x) = x / sqrt (x * x + y * y)"
proof -
  consider "0 < x" | "x < 0" | "x = 0" "y \<noteq> 0" using assms by fastforce
  then show ?thesis
  proof cases
    case 1
    then show ?thesis by (simp add: Math_atan2_def cos_arctan_ratio)
  next
    case 2
    then show ?thesis by (simp add: Math_atan2_def cos_arctan_ratio cos_diff cos_add)
  next
    case 3
    then show ?thesis by (simp add: Math_atan2_def)
  qed
qed

lemma sin_Math_atan2:
  assumes "x \<noteq> 0 \<or> y \<noteq> 0"
  shows "sin (Math_atan2 y x) = y / sqrt (x * x + y * y)"
proof -
  consider "0 < x" | "x < 0" | "x = 0" "0 < y" | "x = 0" "y < 0" using assms by fastforce
  then show ?thesis
  proof cases
    case 1
    then show ?thesis by (simp add: Math_atan2_def sin_arctan_ratio)
  next
    case 2
    then show ?thesis by (simp add: Math_atan2_def sin_arctan_ratio sin_diff sin_add)
  next
    case 3
    then show ?thesis by (simp add: Math_atan2_def)
  next
    case 4
    then have "sqrt (y * y) = - y" by (metis abs_of_neg real_sqrt_abs2)
    with 4 show ?thesis by (simp add: Math_atan2_def)
  qed
qed

subsection \<open>Statements on the update of a particle\<close>

lemma mouseInteraction_near:
  assumes mx: "mouse_x m = Some mx" and my: "mouse_y m = Some my"
    and d: "d = sqrt ((mx - particle_x p) * (mx - particle_x p) + (my - particle_y p) * (my - particle_y p))"
    and near: "d < radius m"
  shows "mouseInteraction m p =
           Some (p\<lparr>particle_x := particle_x p
                       - cos (Math_atan2 (my - particle_y p) (mx - particle_x p)) * ((radius m - d) / radius m) * 3,
                    particle_y := particle_y p
                       - sin (Math_atan2 (my - particle_y p) (mx - particle_x p)) * ((radius m - d) / radius m) * 3\<rparr>)"
proof -
  have "0 \<le> d" unfolding d by simp
  with near have "radius m \<noteq> 0" by linarith
  then show ?thesis
    using mx my near unfolding d
    by (simp add: mouseInteraction_def Math_sqrt_sum_squares js_div_def Let_def)
qed

text \<open>
  The repulsion in exact arithmetic. A particle at distance \<open>d\<close> from the pointer,
  \<open>0 < d < 150\<close>, is displaced by \<open>force * 3\<close> times the unit vector from the pointer to
  the particle, with \<open>force = (150 - d) / 150\<close>. This is a statement on the exact model
  only: in double arithmetic a push below half an ulp of the coordinate is absorbed,
  and \<open>Math.cos\<close>, \<open>Math.sin\<close> and \<open>Math.atan2\<close> are approximations.
\<close>

lemma exact_repulsion:
  assumes mx: "mouse_x m = Some mx" and my: "mouse_y m = Some my" and r: "radius m = 150"
    and d: "d = sqrt ((mx - particle_x p) * (mx - particle_x p) + (my - particle_y p) * (my - particle_y p))"
    and pos: "0 < d" and near: "d < 150"
  shows "\<exists>p' force. mouseInteraction m p = Some p'
          \<and> js_div (radius m - d) (radius m) = Some force
          \<and> force = (150 - d) / 150
          \<and> particle_x p' - particle_x p = force * 3 * ((particle_x p - mx) / d)
          \<and> particle_y p' - particle_y p = force * 3 * ((particle_y p - my) / d)
          \<and> 0 < (particle_x p' - particle_x p) * (particle_x p - mx)
                + (particle_y p' - particle_y p) * (particle_y p - my)
          \<and> (d = 75 \<longrightarrow> force = 1 / 2)"
proof -
  let ?dx = "mx - particle_x p" and ?dy = "my - particle_y p"
  let ?f = "(150 - d) / 150"
  have nz: "?dx \<noteq> 0 \<or> ?dy \<noteq> 0"
  proof (rule ccontr)
    assume "\<not> ?thesis"
    then have "d = 0" unfolding d by simp
    with pos show False by simp
  qed
  have c: "cos (Math_atan2 ?dy ?dx) = ?dx / d" unfolding d by (rule cos_Math_atan2 [OF nz])
  have s: "sin (Math_atan2 ?dy ?dx) = ?dy / d" unfolding d by (rule sin_Math_atan2 [OF nz])
  define p' where "p' = p\<lparr>particle_x := particle_x p - (?dx / d) * ?f * 3,
                           particle_y := particle_y p - (?dy / d) * ?f * 3\<rparr>"
  have m: "mouseInteraction m p = Some p'"
    using mouseInteraction_near [OF mx my d] near r by (simp add: c s p'_def)
  have f: "js_div (radius m - d) (radius m) = Some ?f"
    by (simp add: js_div_def r)
  have x: "particle_x p' - particle_x p = ?f * 3 * ((particle_x p - mx) / d)"
    using pos by (simp add: p'_def field_simps)
  have y: "particle_y p' - particle_y p = ?f * 3 * ((particle_y p - my) / d)"
    using pos by (simp add: p'_def field_simps)
  have sq: "(particle_x p - mx) * (particle_x p - mx) + (particle_y p - my) * (particle_y p - my) = d * d"
  proof -
    have "(particle_x p - mx) * (particle_x p - mx) + (particle_y p - my) * (particle_y p - my)
            = ?dx * ?dx + ?dy * ?dy" by (simp add: algebra_simps)
    also have "\<dots> = d * d" unfolding d by (simp add: add_nonneg_nonneg)
    finally show ?thesis .
  qed
  have alg: "(f * 3 * (a / d)) * a + (f * 3 * (b / d)) * b = f * 3 * ((a * a + b * b) / d)"
    for f a b :: real
    by (simp add: add_divide_distrib distrib_left)
  have "(particle_x p' - particle_x p) * (particle_x p - mx)
          + (particle_y p' - particle_y p) * (particle_y p - my)
        = ?f * 3 * ((d * d) / d)"
    unfolding x y alg sq ..
  also have "\<dots> = ?f * 3 * d" using pos by simp
  finally have dot: "(particle_x p' - particle_x p) * (particle_x p - mx)
          + (particle_y p' - particle_y p) * (particle_y p - my) = ?f * 3 * d" .
  have "0 < ?f * 3 * d" using pos near by simp
  with dot have "0 < (particle_x p' - particle_x p) * (particle_x p - mx)
          + (particle_y p' - particle_y p) * (particle_y p - my)" by simp
  moreover have "d = 75 \<longrightarrow> ?f = 1 / 2" by simp
  ultimately show ?thesis using m f x y by blast
qed

text \<open>
  Claim C5. When the particle is at the pointer (\<open>d = 0\<close>), the mouse block and the whole
  update yield a particle with finite coordinates (never \<open>None\<close>, the model's value for a
  result that is no finite number): \<open>Math.atan2(0, 0)\<close> is \<open>0\<close>, so with the radius
  150 the particle moves by 3 to the left.
\<close>

theorem repulsion_at_pointer:
  assumes "mouse_x m = Some (particle_x p)" and "mouse_y m = Some (particle_y p)"
  shows "(\<exists>p'. mouseInteraction m p = Some p'
            \<and> (radius m = 150 \<longrightarrow> p' = p\<lparr>particle_x := particle_x p - 3\<rparr>))
       \<and> (\<exists>p'. updateParticle m c p = Some p')"
proof -
  have "mouseInteraction m p = Some (p\<lparr>particle_x := particle_x p - 3\<rparr>)" if "radius m = 150"
    using mouseInteraction_near [OF assms, of 0] that by (simp add: Math_atan2_def)
  then show ?thesis
    using mouseInteraction_total [of m p] updateParticle_total [of m c p] by auto
qed

theorem repulsion_at_pointer_witness:
  "mouse_x \<lparr>mouse_x = Some 40, mouse_y = Some 30, radius = 150\<rparr> = Some 40
   \<and> mouse_y \<lparr>mouse_x = Some 40, mouse_y = Some 30, radius = 150\<rparr> = Some 30
   \<and> mouseInteraction \<lparr>mouse_x = Some 40, mouse_y = Some 30, radius = 150\<rparr>
        \<lparr>particle_x = 40, particle_y = 30, particle_size = 1, speedX = 0, speedY = 0,
         hue = 200, originalX = 40, originalY = 30\<rparr>
       = Some \<lparr>particle_x = 37, particle_y = 30, particle_size = 1, speedX = 0, speedY = 0,
               hue = 200, originalX = 40, originalY = 30\<rparr>"
  using repulsion_at_pointer [of "\<lparr>mouse_x = Some 40, mouse_y = Some 30, radius = 150\<rparr>"
      "\<lparr>particle_x = 40, particle_y = 30, particle_size = 1, speedX = 0, speedY = 0,
        hue = 200, originalX = 40, originalY = 30\<rparr>"]
  by auto

text \<open>
  Claim C3. In the update of a particle, a coordinate that exceeds the canvas bound
  after the movement steps (\<open>x > W\<close> or \<open>y > H\<close>) is 0 after the same update, and a
  coordinate below 0 is the opposite bound (\<open>W\<close> or \<open>H\<close>).
\<close>

theorem wrap_resets_coordinate:
  "\<exists>q p'. beforeWrap m p = Some q \<and> updateParticle m c p = Some p'
     \<and> (real (width c) < particle_x q \<longrightarrow> particle_x p' = 0)
     \<and> (particle_x q < 0 \<longrightarrow> particle_x p' = real (width c))
     \<and> (real (height c) < particle_y q \<longrightarrow> particle_y p' = 0)
     \<and> (particle_y q < 0 \<longrightarrow> particle_y p' = real (height c))"
proof -
  obtain q where q: "beforeWrap m p = Some q" using beforeWrap_total by blast
  then have u: "updateParticle m c p = Some (wrapAroundEdges c q)"
    by (simp add: updateParticle_def)
  show ?thesis
    unfolding q u by (simp add: wrapAroundEdges_x wrapAroundEdges_y)
qed

theorem wrap_resets_coordinate_witness:
  "beforeWrap \<lparr>mouse_x = None, mouse_y = None, radius = 150\<rparr>
      \<lparr>particle_x = 100, particle_y = 0, particle_size = 1, speedX = 1, speedY = - 1,
       hue = 200, originalX = 100, originalY = 0\<rparr>
     = Some \<lparr>particle_x = 101, particle_y = - 1, particle_size = 1, speedX = 1, speedY = - 1,
             hue = 200, originalX = 100, originalY = 0\<rparr>
   \<and> real (width \<lparr>width = 100, height = 100\<rparr>) < 101
   \<and> (\<exists>p'. updateParticle \<lparr>mouse_x = None, mouse_y = None, radius = 150\<rparr>
             \<lparr>width = 100, height = 100\<rparr>
             \<lparr>particle_x = 100, particle_y = 0, particle_size = 1, speedX = 1, speedY = - 1,
              hue = 200, originalX = 100, originalY = 0\<rparr> = Some p'
          \<and> particle_x p' = 0 \<and> particle_y p' = 100)"
proof -
  let ?m = "\<lparr>mouse_x = None, mouse_y = None, radius = 150\<rparr>"
  let ?p = "\<lparr>particle_x = 100, particle_y = 0, particle_size = 1, speedX = 1, speedY = - 1,
       hue = 200, originalX = 100, originalY = 0\<rparr>"
  have b: "beforeWrap ?m ?p
     = Some \<lparr>particle_x = 101, particle_y = - 1, particle_size = 1, speedX = 1, speedY = - 1,
             hue = 200, originalX = 100, originalY = 0\<rparr>"
    by (simp add: beforeWrap_def mouseInteraction_def returnToOriginal_def moveParticle_def)
  from wrap_resets_coordinate [of ?m ?p "\<lparr>width = 100, height = 100\<rparr>"] b
  show ?thesis by auto
qed

text \<open>
  Claim C10. After the wrap step of an update the coordinates satisfy
  \<open>0 \<le> x \<le> W\<close> and \<open>0 \<le> y \<le> H\<close>; a coordinate below 0 becomes exactly the
  opposite bound, and a coordinate equal to the bound is left as it is.
\<close>

theorem wrap_keeps_in_bounds:
  "\<exists>q p'. beforeWrap m p = Some q \<and> updateParticle m c p = Some p'
     \<and> 0 \<le> particle_x p' \<and> particle_x p' \<le> real (width c)
     \<and> 0 \<le> particle_y p' \<and> particle_y p' \<le> real (height c)
     \<and> (particle_x q < 0 \<longrightarrow> particle_x p' = real (width c))
     \<and> (particle_y q < 0 \<longrightarrow> particle_y p' = real (height c))
     \<and> (particle_x q = real (width c) \<longrightarrow> particle_x p' = particle_x q)
     \<and> (particle_y q = real (height c) \<longrightarrow> particle_y p' = particle_y q)"
proof -
  obtain q where q: "beforeWrap m p = Some q" using beforeWrap_total by blast
  then have u: "updateParticle m c p = Some (wrapAroundEdges c q)"
    by (simp add: updateParticle_def)
  show ?thesis
    unfolding q u by (simp add: wrapAroundEdges_x wrapAroundEdges_y)
qed

theorem wrap_keeps_in_bounds_witness:
  "beforeWrap \<lparr>mouse_x = None, mouse_y = None, radius = 150\<rparr>
      \<lparr>particle_x = 0, particle_y = 100, particle_size = 1, speedX = - (1 / 2), speedY = 0,
       hue = 200, originalX = 0, originalY = 100\<rparr>
     = Some \<lparr>particle_x = - (1 / 2), particle_y = 100, particle_size = 1, speedX = - (1 / 2),
             speedY = 0, hue = 200, originalX = 0, originalY = 100\<rparr>
   \<and> (\<exists>p'. updateParticle \<lparr>mouse_x = None, mouse_y = None, radius = 150\<rparr>
             \<lparr>width = 100, height = 100\<rparr>
             \<lparr>particle_x = 0, particle_y = 100, particle_size = 1, speedX = - (1 / 2), speedY = 0,
              hue = 200, originalX = 0, originalY = 100\<rparr> = Some p'
          \<and> particle_x p' = 100 \<and> particle_y p' = 100)"
proof -
  let ?m = "\<lparr>mouse_x = None, mouse_y = None, radius = 150\<rparr>"
  let ?p = "\<lparr>particle_x = 0, particle_y = 100, particle_size = 1, speedX = - (1 / 2), speedY = 0,
       hue = 200, originalX = 0, originalY = 100\<rparr>"
  have b: "beforeWrap ?m ?p
     = Some \<lparr>particle_x = - (1 / 2), particle_y = 100, particle_size = 1, speedX = - (1 / 2),
             speedY = 0, hue = 200, originalX = 0, originalY = 100\<rparr>"
    by (simp add: beforeWrap_def mouseInteraction_def returnToOriginal_def moveParticle_def)
  from wrap_keeps_in_bounds [of ?m ?p "\<lparr>width = 100, height = 100\<rparr>"] b
  show ?thesis by auto
qed

text \<open>
  Claim C9. \<open>drawParticles\<close> changes only the position of each particle: the size,
  both speeds, the hue and the origin (\<open>originalX\<close>, \<open>originalY\<close>) of every particle
  are the same after the frame, as are the canvas and the mouse.
\<close>

theorem drawParticles_changes_position_only:
  "\<exists>s' ds. drawParticles s = Some (s', ds)
     \<and> map particle_size (particles s') = map particle_size (particles s)
     \<and> map speedX (particles s') = map speedX (particles s)
     \<and> map speedY (particles s') = map speedY (particles s)
     \<and> map hue (particles s') = map hue (particles s)
     \<and> map originalX (particles s') = map originalX (particles s)
     \<and> map originalY (particles s') = map originalY (particles s)
     \<and> canvas s' = canvas s \<and> mouse s' = mouse s"
proof -
  obtain ps' ds where f: "forEach (mouse s) (canvas s) (particles s) = Some (ps', ds)"
    using forEach_total by blast
  then have "drawParticles s = Some (s\<lparr>particles := ps'\<rparr>, ds)"
    by (simp add: drawParticles_def)
  then show ?thesis using forEach_fields [OF f] by simp
qed

subsection \<open>Claims on drawConnections, resizeCanvas and the menu\<close>
















lemma resizeCanvas_particles:
  "particles (resizeCanvas w h g s) =
     (if particles s = [] then []
      else particles (createParticles g (s\<lparr>canvas := \<lparr>width = w, height = h\<rparr>\<rparr>)))"
  by (simp add: resizeCanvas_def Let_def)

text \<open>
  Claim C2 as stated (the count is \<open>floor (w * h / 15000)\<close> after every resize, also
  from an empty particle set) fails: \<open>resizeCanvas\<close> recreates the particles only
  under the guard \<open>this.particles.length > 0\<close>. The first call, from
  \<open>initCanvasLayer\<close> on the constructor's state, leaves no particle.
\<close>

theorem resizeCanvas_keeps_empty_counterexample:
  "length (particles (resizeCanvas 1500 1000 midpoints (constructor \<lparr>width = 300, height = 150\<rparr>)))
     \<noteq> (1500 * 1000) div 15000"
  by (simp add: resizeCanvas_particles constructor_def)

text \<open>
  Claim C2, as amended. \<open>resizeCanvas\<close> sets the canvas to the new dimensions. When the
  particle set before the resize is not empty, the set is regenerated by
  \<open>createParticles\<close> from the new dimensions, so it has \<open>floor (w * h / 15000)\<close>
  particles; when it is empty, it stays empty.
\<close>

theorem resizeCanvas_regenerates:
  "canvas (resizeCanvas w h g s) = \<lparr>width = w, height = h\<rparr>
   \<and> (particles s \<noteq> [] \<longrightarrow>
        particles (resizeCanvas w h g s)
          = particles (createParticles g (s\<lparr>canvas := \<lparr>width = w, height = h\<rparr>\<rparr>))
        \<and> length (particles (resizeCanvas w h g s)) = (w * h) div 15000)
   \<and> (particles s = [] \<longrightarrow> particles (resizeCanvas w h g s) = [])"
proof -
  have "canvas (resizeCanvas w h g s) = \<lparr>width = w, height = h\<rparr>"
    by (simp add: resizeCanvas_def Let_def createParticles_def)
  moreover have "length (particles (createParticles g (s\<lparr>canvas := \<lparr>width = w, height = h\<rparr>\<rparr>)))
      = (w * h) div 15000"
    by (simp add: createParticles_def length_createLoop numberOfParticles_div)
  ultimately show ?thesis by (simp add: resizeCanvas_particles)
qed

theorem resizeCanvas_regenerates_witness:
  "particles \<lparr>canvas = \<lparr>width = 300, height = 150\<rparr>,
          particles = [\<lparr>particle_x = 0, particle_y = 0, particle_size = 1, speedX = 0, speedY = 0,
                         hue = 200, originalX = 0, originalY = 0\<rparr>],
          mouse = \<lparr>mouse_x = None, mouse_y = None, radius = 150\<rparr>\<rparr> \<noteq> []
   \<and> length (particles (resizeCanvas 1500 1000 midpoints
        \<lparr>canvas = \<lparr>width = 300, height = 150\<rparr>,
          particles = [\<lparr>particle_x = 0, particle_y = 0, particle_size = 1, speedX = 0, speedY = 0,
                         hue = 200, originalX = 0, originalY = 0\<rparr>],
          mouse = \<lparr>mouse_x = None, mouse_y = None, radius = 150\<rparr>\<rparr>)) = 100"
proof -
  let ?s = "\<lparr>canvas = \<lparr>width = 300, height = 150\<rparr>,
          particles = [\<lparr>particle_x = 0, particle_y = 0, particle_size = 1, speedX = 0, speedY = 0,
                         hue = 200, originalX = 0, originalY = 0\<rparr>],
          mouse = \<lparr>mouse_x = None, mouse_y = None, radius = 150\<rparr>\<rparr>"
  have ne: "particles ?s \<noteq> []" by simp
  from resizeCanvas_regenerates [of 1500 1000 midpoints ?s] ne
  have "length (particles (resizeCanvas 1500 1000 midpoints ?s)) = (1500 * 1000) div 15000"
    by blast
  with ne show ?thesis by simp
qed

lemma navMenu_toggleMobileMenu:
  "navMenu (fst (toggleMobileMenu d)) = map_option (classList_toggle ''active'') (navMenu d)"
  by (simp add: toggleMobileMenu_def Let_def split_def split: option.split sum.split)

lemma classList_toggle_twice:
  "classList_contains t (classList_toggle t (classList_toggle t cl)) = classList_contains t cl"
  by (simp add: classList_toggle_def classList_contains_def)

text \<open>
  Claim C8. From every state of the document, two calls of \<open>toggleMobileMenu\<close> leave
  the menu with the class \<open>active\<close> exactly if it had it before.
\<close>

theorem toggleMobileMenu_twice:
  "menu_active (fst (toggleMobileMenu (fst (toggleMobileMenu d)))) = menu_active d"
proof (cases "navMenu d")
  case None
  then show ?thesis
    by (simp add: menu_active_def navMenu_toggleMobileMenu)
next
  case (Some cl)
  then have "navMenu (fst (toggleMobileMenu (fst (toggleMobileMenu d))))
      = Some (classList_toggle ''active'' (classList_toggle ''active'' cl))"
    by (simp add: navMenu_toggleMobileMenu)
  with Some show ?thesis
    by (simp add: menu_active_def classList_toggle_twice)
qed

end
